theory Spec2Isabelle
  imports Complex_Main "HOL-Library.Sublist"
begin

section \<open>The drawing component: data model\<close>

text \<open>
  The component under study is \<^verbatim>\<open>src/component/Drawing.tsx\<close>. Its state lives in
  React \<^verbatim>\<open>useState\<close> cells; a handler reads the cells of the render that created it
  through its closure and queues new values for the cells. The model runs one handler
  to completion as one transition of a record holding all cells. For a handler of the
  current render, a value read through the closure and the \<^verbatim>\<open>prev\<close> handed to a
  functional updater are the same value. The handlers on the stage and on the buttons
  are always of the current render. A handler attached to a shape can outlive the
  render that created it, when the shape has left the collection; what such a handler
  reads through its closure is then an input of its own.

  JavaScript numbers are modelled as \<^typ>\<open>real\<close>: the coordinates and scale factors
  that reach the handlers are finite, and rounding is not modelled.
\<close>

datatype ShapeType = Rectangle | Circle | Line

datatype DashStyle = Solid | Dashed

text \<open>\<^verbatim>\<open>interface BaseShape\<close>, without the discriminant \<^verbatim>\<open>type\<close>, which is the
  constructor of \<open>Shape\<close> below. The field \<^verbatim>\<open>id\<close> is called \<open>shape_id\<close> (\<open>id\<close> is
  the identity function of HOL).\<close>

record BaseShape =
  shape_id :: string
  stroke :: string
  strokeWidth :: real
  dash :: "real list"
  draggable :: bool
  isSelected :: bool

text \<open>\<^verbatim>\<open>type Shape = RectShape | CircleShape | LineShape\<close>. The fields \<^verbatim>\<open>x\<close> and
  \<^verbatim>\<open>y\<close> are called \<open>shape_x\<close> and \<open>shape_y\<close>.\<close>

datatype Shape =
    RectShape (base: BaseShape) (shape_x: real) (shape_y: real)
      (width: real) (height: real) (fill: string)
  | CircleShape (base: BaseShape) (shape_x: real) (shape_y: real)
      (radius: real) (fill: string)
  | LineShape (base: BaseShape) (points: "real list")

fun shapeType :: "Shape \<Rightarrow> ShapeType" where
  "shapeType (RectShape _ _ _ _ _ _) = Rectangle"
| "shapeType (CircleShape _ _ _ _ _) = Circle"
| "shapeType (LineShape _ _) = Line"

text \<open>The cells of \<^verbatim>\<open>DrawingApp\<close>, in the order of their \<^verbatim>\<open>useState\<close> calls. A point
  \<^verbatim>\<open>{x, y}\<close> is a pair; \<^verbatim>\<open>null\<close> is \<open>None\<close>. The cell \<^verbatim>\<open>strokeWidth\<close> is called
  \<open>toolStrokeWidth\<close>, since the shapes have a field of the same name.

  The record is parametric in what a cell of type \<^verbatim>\<open>Shape[]\<close> holds: the collection
  itself in the model of values (\<open>DrawingApp\<close>), a reference to an array in the
  model of the heap further down.\<close>

record 'c Cells =
  shapes :: 'c
  selectedId :: "string option"
  drawingType :: ShapeType
  lineStart :: "(real \<times> real) option"
  strokeColor :: string
  toolStrokeWidth :: real
  dashStyle :: DashStyle
  fillColor :: string
  history :: "'c list"
  redoStack :: "'c list"

type_synonym DrawingApp = "Shape list Cells"

definition initialState :: DrawingApp where
  "initialState =
     \<lparr> shapes = [], selectedId = None, drawingType = Rectangle, lineStart = None,
       strokeColor = ''#000000'', toolStrokeWidth = 2, dashStyle = Solid,
       fillColor = ''#f0f0f0'', history = [], redoStack = [] \<rparr>"

section \<open>The handlers\<close>

text \<open>\<^verbatim>\<open>pushToHistory\<close>: the updater of \<^verbatim>\<open>setHistory\<close> puts the \<^verbatim>\<open>shapes\<close> of the
  closure on top of the live undo stack (the end of the array), and the redo stack is
  emptied. \<open>pushToHistoryOf\<close> takes the \<^verbatim>\<open>shapes\<close> of the closure, that is of the render
  that created the handler, as \<open>rendered\<close>; \<open>pushToHistory\<close> is the call from a handler
  of the current render, where it is the live collection. Like \<open>undoLast\<close> and
  \<open>redoLast\<close> it only moves collections between cells, whatever a collection is.\<close>

definition pushToHistoryOf :: "'c \<Rightarrow> 'c Cells \<Rightarrow> 'c Cells" where
  "pushToHistoryOf rendered st = st\<lparr> history := history st @ [rendered], redoStack := [] \<rparr>"

definition pushToHistory :: "'c Cells \<Rightarrow> 'c Cells" where
  "pushToHistory st = pushToHistoryOf (shapes st) st"

definition dashArray :: "DashStyle \<Rightarrow> real list" where
  "dashArray d = (if d = Dashed then [10, 5] else [])"

text \<open>\<^verbatim>\<open>createShape\<close>. Its two inputs from the outside are the pointer position of the
  stage (\<^verbatim>\<open>null\<close> when there is none) and the identifier that \<^verbatim>\<open>uuidv4()\<close> returns.\<close>

definition baseProps :: "string \<Rightarrow> 'c Cells \<Rightarrow> BaseShape" where
  "baseProps i st =
     \<lparr> shape_id = i, stroke = strokeColor st, strokeWidth = toolStrokeWidth st,
       dash = dashArray (dashStyle st), draggable = True, isSelected = False \<rparr>"

definition createShape :: "(real \<times> real) option \<Rightarrow> string \<Rightarrow> DrawingApp \<Rightarrow> DrawingApp" where
  "createShape pointer i st =
     (case pointer of
        None \<Rightarrow> st
      | Some (px, py) \<Rightarrow>
          if drawingType st = Line then
            (case lineStart st of
               None \<Rightarrow> st\<lparr> lineStart := Some (px, py) \<rparr>
             | Some (lx, ly) \<Rightarrow>
                 (let newLine = LineShape (baseProps i st) [lx, ly, px, py];
                      st1 = pushToHistory st
                  in st1\<lparr> shapes := shapes st1 @ [newLine], lineStart := None \<rparr>))
          else
            (let newShape =
                   (if drawingType st = Rectangle
                    then RectShape (baseProps i st) px py 100 60 (fillColor st)
                    else CircleShape (baseProps i st) px py 40 (fillColor st));
                 st1 = pushToHistory st
             in st1\<lparr> shapes := shapes st1 @ [newShape], selectedId := Some i \<rparr>))"

text \<open>\<^verbatim>\<open>handleSelect\<close>: every shape is copied with \<^verbatim>\<open>isSelected: shape.id === id\<close>.\<close>

fun withBase :: "(BaseShape \<Rightarrow> BaseShape) \<Rightarrow> Shape \<Rightarrow> Shape" where
  "withBase f (RectShape b x y w h c) = RectShape (f b) x y w h c"
| "withBase f (CircleShape b x y r c) = CircleShape (f b) x y r c"
| "withBase f (LineShape b ps) = LineShape (f b) ps"

definition markSelected :: "string \<Rightarrow> Shape \<Rightarrow> Shape" where
  "markSelected i s = withBase (\<lambda>b. b\<lparr> isSelected := (shape_id b = i) \<rparr>) s"

definition handleSelect :: "string \<Rightarrow> DrawingApp \<Rightarrow> DrawingApp" where
  "handleSelect i st =
     st\<lparr> selectedId := Some i, shapes := map (markSelected i) (shapes st) \<rparr>"

text \<open>\<^verbatim>\<open>updateShape(id, updatedProps)\<close>. Every call site passes geometry only, so the
  partial shape is a record of the optional geometry fields. The spread
  \<^verbatim>\<open>{ ...shape, ...updatedProps } as Shape\<close> overwrites the fields that are present;
  a field that the variant of the shape does not declare would become a stray
  property of the object, which \<open>Shape\<close> has no place for and no handler reads.\<close>

record Patch =
  patch_x :: "real option"
  patch_y :: "real option"
  patch_width :: "real option"
  patch_height :: "real option"
  patch_radius :: "real option"
  patch_points :: "real list option"

definition noPatch :: Patch where
  "noPatch = \<lparr> patch_x = None, patch_y = None, patch_width = None,
               patch_height = None, patch_radius = None, patch_points = None \<rparr>"

definition orElse :: "'a option \<Rightarrow> 'a \<Rightarrow> 'a" where
  "orElse u old = (case u of None \<Rightarrow> old | Some v \<Rightarrow> v)"

fun spread :: "Shape \<Rightarrow> Patch \<Rightarrow> Shape" where
  "spread (RectShape b x y w h c) p =
     RectShape b (orElse (patch_x p) x) (orElse (patch_y p) y)
       (orElse (patch_width p) w) (orElse (patch_height p) h) c"
| "spread (CircleShape b x y r c) p =
     CircleShape b (orElse (patch_x p) x) (orElse (patch_y p) y)
       (orElse (patch_radius p) r) c"
| "spread (LineShape b ps) p = LineShape b (orElse (patch_points p) ps)"

text \<open>\<open>updateShapeOf\<close> is the call from a handler whose closure holds \<open>rendered\<close> as
  \<^verbatim>\<open>shapes\<close>: \<^verbatim>\<open>pushToHistory()\<close> pushes that, and the updater of \<^verbatim>\<open>setShapes\<close> maps
  the live collection. \<open>updateShape\<close> is the call from a handler of the current render.
  Every call site passes the identifier of the shape that its handler is attached to,
  so the identifier is in the collection of the handler's render.\<close>

definition updateShapeOf :: "Shape list \<Rightarrow> string \<Rightarrow> Patch \<Rightarrow> DrawingApp \<Rightarrow> DrawingApp" where
  "updateShapeOf rendered i updatedProps st =
     (let st1 = pushToHistoryOf rendered st
      in st1\<lparr> shapes :=
           map (\<lambda>shape. if shape_id (base shape) = i then spread shape updatedProps else shape)
             (shapes st1) \<rparr>)"

definition updateShape :: "string \<Rightarrow> Patch \<Rightarrow> DrawingApp \<Rightarrow> DrawingApp" where
  "updateShape i updatedProps st = updateShapeOf (shapes st) i updatedProps st"

text \<open>\<^verbatim>\<open>undoLast\<close> and \<^verbatim>\<open>redoLast\<close>. Reading the last element of an empty array gives
  \<^verbatim>\<open>undefined\<close>, which fails the test; an array, also an empty one, passes it.\<close>

definition undoLast :: "'c Cells \<Rightarrow> 'c Cells" where
  "undoLast st =
     (if history st = [] then st
      else st\<lparr> redoStack := redoStack st @ [shapes st],
               shapes := last (history st),
               history := butlast (history st) \<rparr>)"

definition redoLast :: "'c Cells \<Rightarrow> 'c Cells" where
  "redoLast st =
     (if redoStack st = [] then st
      else st\<lparr> history := history st @ [shapes st],
               shapes := last (redoStack st),
               redoStack := butlast (redoStack st) \<rparr>)"

text \<open>The handlers that the render attaches to each shape, by its \<^verbatim>\<open>type\<close>. What a
  handler reads from the Konva node \<^verbatim>\<open>e.target\<close> is its input here.\<close>

record Node =
  node_x :: real
  node_y :: real
  node_width :: real
  node_height :: real
  node_scaleX :: real
  node_scaleY :: real

definition onClick :: "Shape \<Rightarrow> DrawingApp \<Rightarrow> DrawingApp" where
  "onClick shape st = handleSelect (shape_id (base shape)) st"

text \<open>\<^verbatim>\<open>onTransformEnd\<close>: the rectangle scales the node's width and height, the circle
  scales \<^verbatim>\<open>shape.radius\<close> by \<^verbatim>\<open>scaleX\<close>; a line has no such handler.\<close>

fun onTransformEnd :: "Shape \<Rightarrow> Node \<Rightarrow> DrawingApp \<Rightarrow> DrawingApp" where
  "onTransformEnd (RectShape b x y w h c) node st =
     updateShape (shape_id b)
       (noPatch\<lparr> patch_x := Some (node_x node), patch_y := Some (node_y node),
                 patch_width := Some (max 5 (node_width node * node_scaleX node)),
                 patch_height := Some (max 5 (node_height node * node_scaleY node)) \<rparr>) st"
| "onTransformEnd (CircleShape b x y r c) node st =
     updateShape (shape_id b)
       (noPatch\<lparr> patch_x := Some (node_x node), patch_y := Some (node_y node),
                 patch_radius := Some (max 5 (r * node_scaleX node)) \<rparr>) st"
| "onTransformEnd (LineShape b ps) node st = st"


section \<open>Runs of the component\<close>

text \<open>\<^verbatim>\<open>setDrawingType\<close>, the setter that the shape selector of the control panel calls.\<close>

definition setDrawingType :: "ShapeType \<Rightarrow> 'c Cells \<Rightarrow> 'c Cells" where
  "setDrawingType k st = st\<lparr> drawingType := k \<rparr>"

text \<open>Everything that the user interface can trigger: the mouse-down on the stage, the
  click on a shape, the geometry update that the drag and transform handlers end in,
  the buttons and the controls of the panel. \<^verbatim>\<open>saveDrawing\<close> writes to the local
  storage and leaves the cells alone.\<close>

datatype Event =
    CreateShape "(real \<times> real) option" string
  | HandleSelect string
  | UpdateShape string Patch
  | UndoLast
  | RedoLast
  | SetDrawingType ShapeType
  | SetStrokeColor string
  | SetStrokeWidth real
  | SetDashStyle DashStyle
  | SetFillColor string
  | SaveDrawing

fun step :: "Event \<Rightarrow> DrawingApp \<Rightarrow> DrawingApp" where
  "step (CreateShape pointer i) st = createShape pointer i st"
| "step (HandleSelect i) st = handleSelect i st"
| "step (UpdateShape i p) st = updateShape i p st"
| "step UndoLast st = undoLast st"
| "step RedoLast st = redoLast st"
| "step (SetDrawingType k) st = setDrawingType k st"
| "step (SetStrokeColor c) st = st\<lparr> strokeColor := c \<rparr>"
| "step (SetStrokeWidth w) st = st\<lparr> toolStrokeWidth := w \<rparr>"
| "step (SetDashStyle d) st = st\<lparr> dashStyle := d \<rparr>"
| "step (SetFillColor c) st = st\<lparr> fillColor := c \<rparr>"
| "step SaveDrawing st = st"

fun isPlacement :: "Event \<Rightarrow> bool" where
  "isPlacement (CreateShape (Some p) i) = True"
| "isPlacement _ = False"

definition shapeIds :: "Shape list \<Rightarrow> string list" where
  "shapeIds c = map (\<lambda>s. shape_id (base s)) c"

definition selectedCount :: "Shape list \<Rightarrow> nat" where
  "selectedCount c = length (filter (\<lambda>s. isSelected (base s)) c)"

text \<open>\<^verbatim>\<open>uuidv4()\<close> returns an identifier that no shape carries yet. The states that the
  component can reach are those of the runs in which every creation is handed such an
  identifier.\<close>

fun freshFor :: "Event \<Rightarrow> DrawingApp \<Rightarrow> bool" where
  "freshFor (CreateShape pointer i) st = (i \<notin> set (shapeIds (shapes st)))"
| "freshFor _ st = True"

inductive reachable :: "DrawingApp \<Rightarrow> bool" where
  reachable_init: "reachable initialState"
| reachable_step: "reachable st \<Longrightarrow> freshFor e st \<Longrightarrow> reachable (step e st)"

text \<open>A mouse-down creates a shape unless there is no pointer position or it is the
  first click of a line.\<close>

definition createsShape :: "(real \<times> real) option \<Rightarrow> 'c Cells \<Rightarrow> bool" where
  "createsShape pointer st =
     (pointer \<noteq> None \<and> (drawingType st = Line \<longrightarrow> lineStart st \<noteq> None))"

text \<open>A collection is well formed when its identifiers are pairwise different and at most
  one flag \<^verbatim>\<open>isSelected\<close> is set.\<close>

definition collectionOk :: "Shape list \<Rightarrow> bool" where
  "collectionOk c = (distinct (shapeIds c) \<and> selectedCount c \<le> 1)"

definition stateOk :: "DrawingApp \<Rightarrow> bool" where
  "stateOk st =
     (collectionOk (shapes st) \<and> list_all collectionOk (history st) \<and>
      list_all collectionOk (redoStack st))"

section \<open>The handlers on a heap\<close>

text \<open>
  \<^verbatim>\<open>pushToHistory\<close> stores the array \<^verbatim>\<open>shapes\<close> itself, not a copy of it, and the
  arrays that the handlers build share their shape objects with the arrays they were
  built from. What a stored snapshot denotes later therefore depends on what the
  handlers write to. This second model keeps the arrays and the shape objects in a
  store and the cells hold references: an address is the index of an object in the
  store, allocation appends to the store. References are typed, so there is one store
  for the shape objects and one for the arrays of references to them. The arrays of
  numbers \<^verbatim>\<open>dash\<close> and \<^verbatim>\<open>points\<close> stay inside the shape: they are built by array
  literals and replaced as a whole. So are the two stacks, which every handler
  rebuilds by a spread or a \<^verbatim>\<open>slice\<close>.

  A read outside the store answers \<open>None\<close>, and so does the handler that reads.
\<close>

type_synonym addr = nat

record Heap =
  objects :: "Shape list"
  arrays :: "addr list list"

record HeapApp =
  heap :: Heap
  cells :: "addr Cells"

definition objectAt :: "Heap \<Rightarrow> addr \<Rightarrow> Shape option" where
  "objectAt h a = (if a < length (objects h) then Some (objects h ! a) else None)"

definition arrayAt :: "Heap \<Rightarrow> addr \<Rightarrow> addr list option" where
  "arrayAt h r = (if r < length (arrays h) then Some (arrays h ! r) else None)"

definition newObject :: "Shape \<Rightarrow> Heap \<Rightarrow> addr \<times> Heap" where
  "newObject s h = (length (objects h), h\<lparr> objects := objects h @ [s] \<rparr>)"

definition newArray :: "addr list \<Rightarrow> Heap \<Rightarrow> addr \<times> Heap" where
  "newArray as h = (length (arrays h), h\<lparr> arrays := arrays h @ [as] \<rparr>)"

text \<open>\<^verbatim>\<open>prev.map(callback)\<close>: the callback either builds a new object by a spread
  (\<open>Some\<close> of it) or returns the object it was given (\<open>None\<close>), whose reference then
  goes into the new array.\<close>

fun arrayMap :: "(Shape \<Rightarrow> Shape option) \<Rightarrow> addr list \<Rightarrow> Heap \<Rightarrow> (addr list \<times> Heap) option" where
  "arrayMap f [] h = Some ([], h)"
| "arrayMap f (a # as) h =
     (case objectAt h a of
        None \<Rightarrow> None
      | Some s \<Rightarrow>
          (case f s of
             None \<Rightarrow>
               (case arrayMap f as h of
                  None \<Rightarrow> None
                | Some (rs, h') \<Rightarrow> Some (a # rs, h'))
           | Some s' \<Rightarrow>
               (case newObject s' h of
                  (a', h1) \<Rightarrow>
                    (case arrayMap f as h1 of
                       None \<Rightarrow> None
                     | Some (rs, h') \<Rightarrow> Some (a' # rs, h')))))"

text \<open>\<^verbatim>\<open>setShapes((prev) => prev.map(callback))\<close> and
  \<^verbatim>\<open>setShapes((prev) => [...prev, newShape])\<close>: the cell receives a new array.\<close>

definition setShapesMap :: "(Shape \<Rightarrow> Shape option) \<Rightarrow> HeapApp \<Rightarrow> HeapApp option" where
  "setShapesMap f hs =
     (case arrayAt (heap hs) (shapes (cells hs)) of
        None \<Rightarrow> None
      | Some prev \<Rightarrow>
          (case arrayMap f prev (heap hs) of
             None \<Rightarrow> None
           | Some (rs, h1) \<Rightarrow>
               (case newArray rs h1 of
                  (r, h2) \<Rightarrow> Some \<lparr> heap = h2, cells = (cells hs)\<lparr> shapes := r \<rparr> \<rparr>)))"

definition setShapesAppend :: "Shape \<Rightarrow> HeapApp \<Rightarrow> HeapApp option" where
  "setShapesAppend newShape hs =
     (case arrayAt (heap hs) (shapes (cells hs)) of
        None \<Rightarrow> None
      | Some prev \<Rightarrow>
          (case newObject newShape (heap hs) of
             (a, h1) \<Rightarrow>
               (case newArray (prev @ [a]) h1 of
                  (r, h2) \<Rightarrow> Some \<lparr> heap = h2, cells = (cells hs)\<lparr> shapes := r \<rparr> \<rparr>)))"

definition onCells :: "(addr Cells \<Rightarrow> addr Cells) \<Rightarrow> HeapApp \<Rightarrow> HeapApp" where
  "onCells f hs = hs\<lparr> cells := f (cells hs) \<rparr>"

definition h_createShape :: "(real \<times> real) option \<Rightarrow> string \<Rightarrow> HeapApp \<Rightarrow> HeapApp option" where
  "h_createShape pointer i hs =
     (case pointer of
        None \<Rightarrow> Some hs
      | Some (px, py) \<Rightarrow>
          if drawingType (cells hs) = Line then
            (case lineStart (cells hs) of
               None \<Rightarrow> Some (onCells (\<lambda>st. st\<lparr> lineStart := Some (px, py) \<rparr>) hs)
             | Some (lx, ly) \<Rightarrow>
                 map_option (onCells (\<lambda>st. st\<lparr> lineStart := None \<rparr>))
                   (setShapesAppend (LineShape (baseProps i (cells hs)) [lx, ly, px, py])
                      (onCells pushToHistory hs)))
          else
            map_option (onCells (\<lambda>st. st\<lparr> selectedId := Some i \<rparr>))
              (setShapesAppend
                 (if drawingType (cells hs) = Rectangle
                  then RectShape (baseProps i (cells hs)) px py 100 60 (fillColor (cells hs))
                  else CircleShape (baseProps i (cells hs)) px py 40 (fillColor (cells hs)))
                 (onCells pushToHistory hs)))"

definition h_handleSelect :: "string \<Rightarrow> HeapApp \<Rightarrow> HeapApp option" where
  "h_handleSelect i hs =
     setShapesMap (\<lambda>shape. Some (markSelected i shape))
       (onCells (\<lambda>st. st\<lparr> selectedId := Some i \<rparr>) hs)"

definition h_updateShape :: "string \<Rightarrow> Patch \<Rightarrow> HeapApp \<Rightarrow> HeapApp option" where
  "h_updateShape i updatedProps hs =
     setShapesMap
       (\<lambda>shape. if shape_id (base shape) = i then Some (spread shape updatedProps) else None)
       (onCells pushToHistory hs)"

fun h_step :: "Event \<Rightarrow> HeapApp \<Rightarrow> HeapApp option" where
  "h_step (CreateShape pointer i) hs = h_createShape pointer i hs"
| "h_step (HandleSelect i) hs = h_handleSelect i hs"
| "h_step (UpdateShape i p) hs = h_updateShape i p hs"
| "h_step UndoLast hs = Some (onCells undoLast hs)"
| "h_step RedoLast hs = Some (onCells redoLast hs)"
| "h_step (SetDrawingType k) hs = Some (onCells (setDrawingType k) hs)"
| "h_step (SetStrokeColor c) hs = Some (onCells (\<lambda>st. st\<lparr> strokeColor := c \<rparr>) hs)"
| "h_step (SetStrokeWidth w) hs = Some (onCells (\<lambda>st. st\<lparr> toolStrokeWidth := w \<rparr>) hs)"
| "h_step (SetDashStyle d) hs = Some (onCells (\<lambda>st. st\<lparr> dashStyle := d \<rparr>) hs)"
| "h_step (SetFillColor c) hs = Some (onCells (\<lambda>st. st\<lparr> fillColor := c \<rparr>) hs)"
| "h_step SaveDrawing hs = Some hs"

fun h_run :: "Event list \<Rightarrow> HeapApp \<Rightarrow> HeapApp option" where
  "h_run [] hs = Some hs"
| "h_run (e # es) hs = (case h_step e hs of None \<Rightarrow> None | Some hs' \<Rightarrow> h_run es hs')"

text \<open>The first render: \<^verbatim>\<open>useState<Shape[]>([])\<close> allocates the empty array.\<close>

definition h_initialState :: HeapApp where
  "h_initialState =
     \<lparr> heap = \<lparr> objects = [], arrays = [[]] \<rparr>,
       cells = \<lparr> shapes = 0, selectedId = None, drawingType = Rectangle, lineStart = None,
         strokeColor = ''#000000'', toolStrokeWidth = 2, dashStyle = Solid,
         fillColor = ''#f0f0f0'', history = [], redoStack = [] \<rparr> \<rparr>"

text \<open>The collection that a reference denotes in a store, and the state of the model of
  values that a state of this model denotes.\<close>

definition collectionAt :: "Heap \<Rightarrow> addr \<Rightarrow> Shape list option" where
  "collectionAt h r =
     (case arrayAt h r of
        None \<Rightarrow> None
      | Some as \<Rightarrow>
          if list_all (\<lambda>a. a < length (objects h)) as
          then Some (map (\<lambda>a. objects h ! a) as) else None)"

fun collectionsAt :: "Heap \<Rightarrow> addr list \<Rightarrow> Shape list list option" where
  "collectionsAt h [] = Some []"
| "collectionsAt h (r # rs) =
     (case collectionAt h r of
        None \<Rightarrow> None
      | Some c \<Rightarrow> map_option ((#) c) (collectionsAt h rs))"

definition valueOf :: "HeapApp \<Rightarrow> DrawingApp option" where
  "valueOf hs =
     (case collectionAt (heap hs) (shapes (cells hs)) of
        None \<Rightarrow> None
      | Some c \<Rightarrow>
          (case collectionsAt (heap hs) (history (cells hs)) of
             None \<Rightarrow> None
           | Some undo \<Rightarrow>
               (case collectionsAt (heap hs) (redoStack (cells hs)) of
                  None \<Rightarrow> None
                | Some redo \<Rightarrow>
                    Some \<lparr> shapes = c, selectedId = selectedId (cells hs),
                      drawingType = drawingType (cells hs), lineStart = lineStart (cells hs),
                      strokeColor = strokeColor (cells hs),
                      toolStrokeWidth = toolStrokeWidth (cells hs),
                      dashStyle = dashStyle (cells hs), fillColor = fillColor (cells hs),
                      history = undo, redoStack = redo \<rparr>)))"

text \<open>No reference dangles: every array of the store refers to objects of the store, and
  every cell to an array of the store.\<close>

definition heapOk :: "Heap \<Rightarrow> bool" where
  "heapOk h = list_all (list_all (\<lambda>a. a < length (objects h))) (arrays h)"

definition wellFormed :: "HeapApp \<Rightarrow> bool" where
  "wellFormed hs =
     (heapOk (heap hs) \<and> shapes (cells hs) < length (arrays (heap hs)) \<and>
      list_all (\<lambda>r. r < length (arrays (heap hs))) (history (cells hs)) \<and>
      list_all (\<lambda>r. r < length (arrays (heap hs))) (redoStack (cells hs)))"

text \<open>A store extends another when it only has more objects and arrays: everything that
  was there is still there, at the same address and with the same content.\<close>

definition extends :: "Heap \<Rightarrow> Heap \<Rightarrow> bool" where
  "extends h h' = (prefix (objects h) (objects h') \<and> prefix (arrays h) (arrays h'))"

text \<open>Some states to run the handlers on.\<close>

definition oneRect :: DrawingApp where
  "oneRect = createShape (Some (10, 10)) ''a'' initialState"

definition pendingLine :: DrawingApp where
  "pendingLine = createShape (Some (0, 0)) ''b'' (setDrawingType Line oneRect)"

definition afterUndo :: DrawingApp where
  "afterUndo = undoLast oneRect"

definition twoShapes :: DrawingApp where
  "twoShapes = createShape (Some (30, 30)) ''c'' oneRect"

definition selectedA :: DrawingApp where
  "selectedA = handleSelect ''a'' twoShapes"

definition resizeNode :: Node where
  "resizeNode = \<lparr> node_x = 10, node_y = 10, node_width = 100, node_height = 60,
                  node_scaleX = 1 / 100, node_scaleY = 1 / 100 \<rparr>"


definition oneLine :: DrawingApp where
  "oneLine = createShape (Some (50, 50)) ''c'' pendingLine"

text \<open>A third rectangle \<open>zz\<close> is created after the first was selected, and the creation
  is undone: the handlers of \<open>zz\<close> were created by the render of \<open>withZ\<close>, and \<open>zz\<close> is
  not in the collection of \<open>afterUndoZ\<close>.\<close>

definition withZ :: DrawingApp where
  "withZ = createShape (Some (50, 50)) ''zz'' selectedA"

definition afterUndoZ :: DrawingApp where
  "afterUndoZ = undoLast withZ"

definition oneCircle :: DrawingApp where
  "oneCircle = createShape (Some (3, 4)) ''e'' (setDrawingType Circle initialState)"

text \<open>The object that a callback of \<open>arrayMap\<close> returns for a shape.\<close>

definition returned :: "(Shape \<Rightarrow> Shape option) \<Rightarrow> Shape \<Rightarrow> Shape" where
  "returned f s = (case f s of None \<Rightarrow> s | Some s' \<Rightarrow> s')"

text \<open>The events that change the collection: a mouse-down that creates a shape and a
  geometry update.\<close>

fun mutates :: "Event \<Rightarrow> 'c Cells \<Rightarrow> bool" where
  "mutates (CreateShape pointer i) st = createsShape pointer st"
| "mutates (UpdateShape i p) st = True"
| "mutates _ st = False"

fun run :: "Event list \<Rightarrow> DrawingApp \<Rightarrow> DrawingApp" where
  "run [] st = st"
| "run (e # es) st = run es (step e st)"

definition h_oneRect :: HeapApp where
  "h_oneRect =
     (case h_createShape (Some (10, 10)) ''a'' h_initialState of
        None \<Rightarrow> h_initialState
      | Some hs \<Rightarrow> hs)"

definition movePatch :: Patch where
  "movePatch = noPatch\<lparr> patch_x := Some 99, patch_y := Some 1 \<rparr>"

section \<open>Basic facts about the handlers\<close>

lemmas handler_defs =
  createShape_def pushToHistory_def pushToHistoryOf_def baseProps_def handleSelect_def
  updateShape_def updateShapeOf_def undoLast_def redoLast_def setDrawingType_def

lemmas example_defs =
  oneRect_def pendingLine_def afterUndo_def twoShapes_def selectedA_def oneLine_def
  oneCircle_def withZ_def afterUndoZ_def initialState_def dashArray_def

lemma base_withBase [simp]: "base (withBase f s) = f (base s)"
  by (cases s) simp_all

lemma base_spread [simp]: "base (spread s p) = base s"
  by (cases s) simp_all

lemma base_markSelected [simp]:
  "base (markSelected i s) = (base s)\<lparr> isSelected := (shape_id (base s) = i) \<rparr>"
  by (simp add: markSelected_def)

lemma shapeIds_simps [simp]:
  "shapeIds [] = []" "shapeIds (s # c) = shape_id (base s) # shapeIds c"
  by (simp_all add: shapeIds_def)

lemma shapeIds_append [simp]: "shapeIds (c @ d) = shapeIds c @ shapeIds d"
  by (simp add: shapeIds_def)

lemma selectedCount_simps [simp]:
  "selectedCount [] = 0"
  "selectedCount (s # c) = (if isSelected (base s) then 1 else 0) + selectedCount c"
  by (simp_all add: selectedCount_def)

lemma selectedCount_append [simp]: "selectedCount (c @ d) = selectedCount c + selectedCount d"
  by (simp add: selectedCount_def)

lemma undoLast_tools [simp]:
  "lineStart (undoLast st) = lineStart st" "drawingType (undoLast st) = drawingType st"
  "baseProps i (undoLast st) = baseProps i st" "selectedId (undoLast st) = selectedId st"
  by (simp_all add: undoLast_def baseProps_def)

lemma redoLast_tools [simp]:
  "lineStart (redoLast st) = lineStart st" "drawingType (redoLast st) = drawingType st"
  "baseProps i (redoLast st) = baseProps i st" "selectedId (redoLast st) = selectedId st"
  by (simp_all add: redoLast_def baseProps_def)

lemma setDrawingType_tools [simp]:
  "lineStart (setDrawingType k st) = lineStart st" "drawingType (setDrawingType k st) = k"
  "baseProps i (setDrawingType k st) = baseProps i st" "shapes (setDrawingType k st) = shapes st"
  "history (setDrawingType k st) = history st" "redoStack (setDrawingType k st) = redoStack st"
  by (simp_all add: setDrawingType_def baseProps_def)

section \<open>Undo and redo\<close>

text \<open>
  C1, as the code has it. With an empty undo stack \<open>undoLast\<close> changes nothing. Otherwise it
  pops the top snapshot \<open>S\<close>, pushes the live collection onto the redo stack and makes
  \<open>S\<close> the live collection. An undo followed at once by a redo gives back the state
  before the undo, and so the live collection, whenever the undo had a snapshot to pop
  or the redo stack was empty.
\<close>

theorem undo_then_redo:
  "(history st = [] \<longrightarrow> undoLast st = st) \<and>
   (history st = hs @ [S] \<longrightarrow>
      shapes (undoLast st) = S \<and> history (undoLast st) = hs \<and>
      redoStack (undoLast st) = redoStack st @ [shapes st]) \<and>
   (history st \<noteq> [] \<or> redoStack st = [] \<longrightarrow> redoLast (undoLast st) = st)"
  by (auto simp: undoLast_def redoLast_def)

theorem undo_then_redo_witness:
  "history initialState = [] \<and> undoLast initialState = initialState \<and>
   redoLast (undoLast initialState) = initialState \<and>
   history oneRect = [] @ [[]] \<and> shapes (undoLast oneRect) = [] \<and>
   history (undoLast oneRect) = [] \<and>
   redoStack (undoLast oneRect) = redoStack oneRect @ [shapes oneRect] \<and>
   redoLast (undoLast oneRect) = oneRect"
  using undo_then_redo [of initialState "[]" "[]"] undo_then_redo [of oneRect "[]" "[]"]
  by (simp add: example_defs handler_defs)

text \<open>
  The round trip of C1 as it is stated, for every history state, fails when the undo
  stack is empty and the redo stack is not: after one creation and one undo, a second
  undo does nothing and the redo that follows brings the rectangle back.
\<close>

theorem undo_redo_empty_history_counterexample:
  "history afterUndo = [] \<and>
   shapes (redoLast (undoLast afterUndo)) \<noteq> shapes afterUndo"
  by (simp add: example_defs handler_defs)

text \<open>
  C2. A mouse-down that creates a shape and every geometry update push the collection
  as it was onto the undo stack and empty the redo stack, whatever it held; a redo
  right after them changes nothing.
\<close>

theorem mutation_empties_redo:
  "(createsShape pointer st \<longrightarrow>
      history (createShape pointer i st) = history st @ [shapes st] \<and>
      redoStack (createShape pointer i st) = [] \<and>
      redoLast (createShape pointer i st) = createShape pointer i st) \<and>
   history (updateShape j p st) = history st @ [shapes st] \<and>
   redoStack (updateShape j p st) = [] \<and>
   redoLast (updateShape j p st) = updateShape j p st"
  by (auto simp: createsShape_def handler_defs Let_def split: option.splits prod.splits)

theorem mutation_empties_redo_witness:
  "createsShape (Some (5, 5)) afterUndo \<and> redoStack afterUndo \<noteq> [] \<and>
   history (createShape (Some (5, 5)) ''d'' afterUndo) = history afterUndo @ [shapes afterUndo] \<and>
   redoStack (createShape (Some (5, 5)) ''d'' afterUndo) = [] \<and>
   redoLast (createShape (Some (5, 5)) ''d'' afterUndo) = createShape (Some (5, 5)) ''d'' afterUndo"
proof -
  have h: "createsShape (Some (5, 5)) afterUndo"
    by (simp add: createsShape_def example_defs handler_defs)
  have "redoStack afterUndo \<noteq> []"
    by (simp add: example_defs handler_defs)
  with h mutation_empties_redo [of "Some (5, 5)" afterUndo "''d''"] show ?thesis
    by blast
qed

section \<open>Creation\<close>

lemma createsShape_iff: "createsShape pointer st \<longleftrightarrow> shapes (createShape pointer i st) \<noteq> shapes st"
  by (auto simp: createsShape_def handler_defs Let_def split: option.splits prod.splits)

text \<open>
  C3. With the line tool, a mouse-down without a pending start point only records the
  point: the collection and the undo stack stay as they are. A mouse-down at \<open>(cx, cy)\<close>
  with the pending start point \<open>(sx, sy)\<close> appends one line with the points
  \<open>[sx, sy, cx, cy]\<close>, pushes one history entry and clears the pending point.
\<close>

theorem line_creation_two_phase:
  assumes "drawingType st = Line"
  shows "(lineStart st = None \<longrightarrow>
            createShape (Some p) i st = st\<lparr> lineStart := Some p \<rparr> \<and>
            shapes (createShape (Some p) i st) = shapes st \<and>
            history (createShape (Some p) i st) = history st) \<and>
         (lineStart st = Some (sx, sy) \<longrightarrow>
            shapes (createShape (Some (cx, cy)) i st) =
              shapes st @ [LineShape (baseProps i st) [sx, sy, cx, cy]] \<and>
            history (createShape (Some (cx, cy)) i st) = history st @ [shapes st] \<and>
            lineStart (createShape (Some (cx, cy)) i st) = None)"
  using assms by (cases p) (auto simp: handler_defs Let_def)

theorem line_creation_two_phase_witness:
  "drawingType (setDrawingType Line oneRect) = Line \<and>
   lineStart (setDrawingType Line oneRect) = None \<and>
   shapes pendingLine = shapes oneRect \<and> history pendingLine = history oneRect \<and>
   drawingType pendingLine = Line \<and> lineStart pendingLine = Some (0, 0) \<and>
   shapes oneLine = shapes pendingLine @ [LineShape (baseProps ''c'' pendingLine) [0, 0, 50, 50]] \<and>
   history oneLine = history pendingLine @ [shapes pendingLine] \<and>
   lineStart oneLine = None"
proof -
  have a: "drawingType (setDrawingType Line oneRect) = Line"
    and b: "lineStart (setDrawingType Line oneRect) = None"
    by (simp_all add: example_defs handler_defs)
  have c: "drawingType pendingLine = Line" and d: "lineStart pendingLine = Some (0, 0)"
    by (simp_all add: example_defs handler_defs)
  from line_creation_two_phase [OF a, of "(0, 0)" "''b''"] b
       line_creation_two_phase [OF c, of _ "''c''" 0 0 50 50] d a c
  show ?thesis
    unfolding pendingLine_def [symmetric] oneLine_def by simp
qed

text \<open>
  C4, as the code has it. With the rectangle tool a mouse-down at \<open>(px, py)\<close> appends a
  rectangle with that origin, width 100 and height 60; with the circle tool it appends a
  circle with that centre and radius 40. Both carry the stroke, stroke width, dash and
  fill of the tool cells. The new shape becomes the selected one in the cell
  \<open>selectedId\<close>; its own flag \<open>isSelected\<close> is false.
\<close>

theorem create_rectangle_circle:
  "(drawingType st = Rectangle \<longrightarrow>
      shapes (createShape (Some (px, py)) i st) =
        shapes st @ [RectShape \<lparr> shape_id = i, stroke = strokeColor st,
           strokeWidth = toolStrokeWidth st, dash = dashArray (dashStyle st),
           draggable = True, isSelected = False \<rparr> px py 100 60 (fillColor st)]) \<and>
   (drawingType st = Circle \<longrightarrow>
      shapes (createShape (Some (px, py)) i st) =
        shapes st @ [CircleShape \<lparr> shape_id = i, stroke = strokeColor st,
           strokeWidth = toolStrokeWidth st, dash = dashArray (dashStyle st),
           draggable = True, isSelected = False \<rparr> px py 40 (fillColor st)]) \<and>
   (drawingType st \<noteq> Line \<longrightarrow> selectedId (createShape (Some (px, py)) i st) = Some i)"
  by (auto simp: createShape_def pushToHistory_def pushToHistoryOf_def baseProps_def Let_def)

theorem create_rectangle_circle_witness:
  "drawingType initialState = Rectangle \<and>
   shapes oneRect =
     [RectShape \<lparr> shape_id = ''a'', stroke = ''#000000'', strokeWidth = 2, dash = [],
        draggable = True, isSelected = False \<rparr> 10 10 100 60 ''#f0f0f0''] \<and>
   selectedId oneRect = Some ''a'' \<and>
   drawingType (setDrawingType Circle initialState) = Circle \<and>
   shapes (createShape (Some (3, 4)) ''e'' (setDrawingType Circle initialState)) =
     [CircleShape \<lparr> shape_id = ''e'', stroke = ''#000000'', strokeWidth = 2, dash = [],
        draggable = True, isSelected = False \<rparr> 3 4 40 ''#f0f0f0'']"
  using create_rectangle_circle [of initialState 10 10 "''a''"]
        create_rectangle_circle [of "setDrawingType Circle initialState" 3 4 "''e''"]
  by (simp add: oneRect_def initialState_def dashArray_def setDrawingType_def)

text \<open>
  C4 as it is stated has the new shape carry \<open>selected = true\<close> in the collection. The
  rectangle created at \<open>(10, 10)\<close> in the initial state carries \<open>isSelected = false\<close>.
\<close>

theorem created_shape_flag_counterexample:
  "\<not> isSelected (base (last (shapes (createShape (Some (10, 10)) ''a'' initialState))))"
  by (simp add: example_defs handler_defs)

section \<open>Geometry updates\<close>

text \<open>
  C5. When the transform of a rectangle of the collection ends, the rectangle gets the
  width \<open>max 5 (w * scaleX)\<close> and the height \<open>max 5 (h * scaleY)\<close>, where \<open>w\<close> and \<open>h\<close>
  are its width and height as the node shows them; a circle of radius \<open>r\<close> gets the
  radius \<open>max 5 (r * scaleX)\<close>. No result is below 5, and a product below 5 gives 5.
\<close>

theorem resize_clamps_at_five:
  assumes "k < length (shapes st)"
  shows "(shapes st ! k = RectShape b x y w h c \<and> node_width node = w \<and> node_height node = h \<longrightarrow>
           shapes (onTransformEnd (shapes st ! k) node st) ! k =
             RectShape b (node_x node) (node_y node)
               (max 5 (w * node_scaleX node)) (max 5 (h * node_scaleY node)) c \<and>
           5 \<le> width (shapes (onTransformEnd (shapes st ! k) node st) ! k) \<and>
           5 \<le> height (shapes (onTransformEnd (shapes st ! k) node st) ! k) \<and>
           (w * node_scaleX node < 5 \<longrightarrow>
              width (shapes (onTransformEnd (shapes st ! k) node st) ! k) = 5) \<and>
           (h * node_scaleY node < 5 \<longrightarrow>
              height (shapes (onTransformEnd (shapes st ! k) node st) ! k) = 5)) \<and>
         (shapes st ! k = CircleShape b x y r c \<longrightarrow>
           shapes (onTransformEnd (shapes st ! k) node st) ! k =
             CircleShape b (node_x node) (node_y node) (max 5 (r * node_scaleX node)) c \<and>
           5 \<le> radius (shapes (onTransformEnd (shapes st ! k) node st) ! k) \<and>
           (r * node_scaleX node < 5 \<longrightarrow>
              radius (shapes (onTransformEnd (shapes st ! k) node st) ! k) = 5))"
  using assms
  by (auto simp: updateShape_def updateShapeOf_def pushToHistory_def pushToHistoryOf_def Let_def noPatch_def orElse_def)

theorem resize_clamps_at_five_witness:
  "0 < length (shapes oneRect) \<and>
   shapes oneRect ! 0 = RectShape (baseProps ''a'' initialState) 10 10 100 60 ''#f0f0f0'' \<and>
   node_width resizeNode = 100 \<and> node_height resizeNode = 60 \<and>
   100 * node_scaleX resizeNode < 5 \<and> 60 * node_scaleY resizeNode < 5 \<and>
   shapes (onTransformEnd (shapes oneRect ! 0) resizeNode oneRect) ! 0 =
     RectShape (baseProps ''a'' initialState) 10 10 5 5 ''#f0f0f0'' \<and>
   0 < length (shapes oneCircle) \<and>
   shapes oneCircle ! 0 = CircleShape (baseProps ''e'' initialState) 3 4 40 ''#f0f0f0'' \<and>
   40 * node_scaleX resizeNode < 5 \<and>
   shapes (onTransformEnd (shapes oneCircle ! 0) resizeNode oneCircle) ! 0 =
     CircleShape (baseProps ''e'' initialState) 10 10 5 ''#f0f0f0''"
proof -
  have a: "0 < length (shapes oneRect)" and b: "0 < length (shapes oneCircle)"
    by (simp_all add: example_defs handler_defs)
  have c: "shapes oneRect ! 0 = RectShape (baseProps ''a'' initialState) 10 10 100 60 ''#f0f0f0''"
    and d: "shapes oneCircle ! 0 = CircleShape (baseProps ''e'' initialState) 3 4 40 ''#f0f0f0''"
    by (simp_all add: example_defs handler_defs)
  have e: "node_width resizeNode = 100" "node_height resizeNode = 60"
    "node_x resizeNode = 10" "node_y resizeNode = 10"
    "node_scaleX resizeNode = 1 / 100" "node_scaleY resizeNode = 1 / 100"
    by (simp_all add: resizeNode_def)
  from resize_clamps_at_five [OF a, where b = "baseProps ''a'' initialState" and x = 10
         and y = 10 and w = 100 and h = 60 and c = "''#f0f0f0''" and node = resizeNode]
  have "shapes (onTransformEnd (shapes oneRect ! 0) resizeNode oneRect) ! 0 =
     RectShape (baseProps ''a'' initialState) 10 10 5 5 ''#f0f0f0''"
    using c e by simp
  moreover
  from resize_clamps_at_five [OF b, where b = "baseProps ''e'' initialState" and x = 3
         and y = 4 and r = 40 and c = "''#f0f0f0''" and node = resizeNode]
  have "shapes (onTransformEnd (shapes oneCircle ! 0) resizeNode oneCircle) ! 0 =
     CircleShape (baseProps ''e'' initialState) 10 10 5 ''#f0f0f0''"
    using d e by simp
  ultimately show ?thesis
    using a b c d e by simp
qed



section \<open>Identifiers that no shape carries\<close>

lemma map_spread_absent:
  "i \<notin> set (shapeIds c) \<Longrightarrow>
   map (\<lambda>shape. if shape_id (base shape) = i then spread shape p else shape) c = c"
  by (induction c) auto

lemma map_markSelected_absent:
  "i \<notin> set (shapeIds c) \<Longrightarrow>
   map (markSelected i) c = map (withBase (\<lambda>b. b\<lparr> isSelected := False \<rparr>)) c"
proof (induction c)
  case Nil
  then show ?case by simp
next
  case (Cons s c)
  then show ?case by (cases s) (auto simp: markSelected_def)
qed

text \<open>
  C7, as the code has it. Take an identifier that no shape of the live collection
  carries; a call with it comes from a handler of an earlier render. \<open>updateShape\<close>
  then leaves the collection as it is, but like every other call it pushes the
  \<^verbatim>\<open>shapes\<close> of its closure, the collection of the render that created the handler,
  onto the undo stack and empties the redo stack. \<open>handleSelect\<close> pushes nothing; it
  stores the identifier in \<open>selectedId\<close> and copies every shape with the flag
  \<open>isSelected\<close> false. Neither handler has a failing branch.
\<close>

theorem absent_id_effects:
  assumes "i \<notin> set (shapeIds (shapes st))"
  shows "shapes (updateShapeOf rendered i p st) = shapes st \<and>
         history (updateShapeOf rendered i p st) = history st @ [rendered] \<and>
         redoStack (updateShapeOf rendered i p st) = [] \<and>
         shapes (handleSelect i st) =
           map (withBase (\<lambda>b. b\<lparr> isSelected := False \<rparr>)) (shapes st) \<and>
         selectedId (handleSelect i st) = Some i \<and>
         history (handleSelect i st) = history st \<and>
         redoStack (handleSelect i st) = redoStack st"
  using map_spread_absent [OF assms] map_markSelected_absent [OF assms]
  by (simp add: updateShapeOf_def handleSelect_def pushToHistoryOf_def Let_def)

theorem absent_id_effects_witness:
  "''zz'' \<in> set (shapeIds (shapes withZ)) \<and>
   ''zz'' \<notin> set (shapeIds (shapes afterUndoZ)) \<and>
   shapes (updateShapeOf (shapes withZ) ''zz'' movePatch afterUndoZ) = shapes afterUndoZ \<and>
   history (updateShapeOf (shapes withZ) ''zz'' movePatch afterUndoZ) =
     history afterUndoZ @ [shapes withZ] \<and>
   redoStack (updateShapeOf (shapes withZ) ''zz'' movePatch afterUndoZ) = [] \<and>
   shapes (handleSelect ''zz'' afterUndoZ) =
     map (withBase (\<lambda>b. b\<lparr> isSelected := False \<rparr>)) (shapes afterUndoZ) \<and>
   history (handleSelect ''zz'' afterUndoZ) = history afterUndoZ"
proof -
  have a: "''zz'' \<notin> set (shapeIds (shapes afterUndoZ))"
    by (simp add: example_defs handler_defs markSelected_def)
  have b: "''zz'' \<in> set (shapeIds (shapes withZ))"
    by (simp add: example_defs handler_defs markSelected_def)
  from absent_id_effects [OF a, of "shapes withZ" movePatch] a b show ?thesis
    by simp
qed

text \<open>
  C7 as it is stated has both handlers leave the collection and the undo stack alone.
  Two rectangles are created, the first is selected, a third rectangle \<open>zz\<close> is created
  and the creation is undone. A geometry update from a handler of \<open>zz\<close>, whose closure
  holds the three rectangles, then makes the undo stack longer by these three, and a
  selection of \<open>zz\<close> changes the collection by clearing the flag of the first.
\<close>

theorem absent_id_counterexample:
  "''zz'' \<notin> set (shapeIds (shapes afterUndoZ)) \<and>
   history (updateShapeOf (shapes withZ) ''zz'' movePatch afterUndoZ) \<noteq> history afterUndoZ \<and>
   length (last (history (updateShapeOf (shapes withZ) ''zz'' movePatch afterUndoZ))) = 3 \<and>
   length (shapes afterUndoZ) = 2 \<and>
   shapes (handleSelect ''zz'' afterUndoZ) \<noteq> shapes afterUndoZ"
  by (simp add: example_defs handler_defs markSelected_def)

section \<open>Selection\<close>

lemma shapeIds_markSelected [simp]: "shapeIds (map (markSelected i) c) = shapeIds c"
  by (induction c) simp_all

lemma selectedCount_markSelected_absent:
  "i \<notin> set (shapeIds c) \<Longrightarrow> selectedCount (map (markSelected i) c) = 0"
  by (induction c) auto

lemma selectedCount_markSelected:
  "distinct (shapeIds c) \<Longrightarrow>
   selectedCount (map (markSelected i) c) = (if i \<in> set (shapeIds c) then 1 else 0)"
  by (induction c) (auto simp: selectedCount_markSelected_absent)

lemma shapeIds_update [simp]:
  "shapeIds (map (\<lambda>shape. if shape_id (base shape) = i then spread shape p else shape) c) =
   shapeIds c"
  by (induction c) simp_all

lemma selectedCount_update [simp]:
  "selectedCount (map (\<lambda>shape. if shape_id (base shape) = i then spread shape p else shape) c) =
   selectedCount c"
  by (induction c) simp_all

lemma collectionOk_markSelected: "collectionOk c \<Longrightarrow> collectionOk (map (markSelected i) c)"
  by (simp add: collectionOk_def selectedCount_markSelected)

lemma collectionOk_update:
  "collectionOk c \<Longrightarrow>
   collectionOk (map (\<lambda>shape. if shape_id (base shape) = i then spread shape p else shape) c)"
  by (simp add: collectionOk_def)

lemma collectionOk_add:
  "collectionOk c \<Longrightarrow> shape_id (base s) \<notin> set (shapeIds c) \<Longrightarrow> \<not> isSelected (base s) \<Longrightarrow>
   collectionOk (c @ [s])"
  by (simp add: collectionOk_def)

lemma stateOk_createShape:
  assumes "stateOk st" and "i \<notin> set (shapeIds (shapes st))"
  shows "stateOk (createShape pointer i st)"
proof -
  have "collectionOk (shapes st @ [s])" if "base s = baseProps i st" for s
    using assms that by (intro collectionOk_add) (simp_all add: stateOk_def baseProps_def)
  then show ?thesis
    using assms(1)
    by (auto simp: createShape_def pushToHistory_def pushToHistoryOf_def stateOk_def Let_def
             split: option.splits prod.splits)
qed

lemma stateOk_handleSelect: "stateOk st \<Longrightarrow> stateOk (handleSelect i st)"
  by (simp add: stateOk_def handleSelect_def collectionOk_markSelected)

lemma stateOk_updateShape: "stateOk st \<Longrightarrow> stateOk (updateShape i p st)"
  by (simp add: stateOk_def updateShape_def updateShapeOf_def pushToHistory_def pushToHistoryOf_def Let_def collectionOk_update)

lemma list_all_butlast: "list_all P xs \<Longrightarrow> list_all P (butlast xs)"
  by (auto simp: list_all_iff dest: in_set_butlastD)

lemma list_all_last: "list_all P xs \<Longrightarrow> xs \<noteq> [] \<Longrightarrow> P (last xs)"
  by (simp add: list_all_iff)

lemma stateOk_undoLast: "stateOk st \<Longrightarrow> stateOk (undoLast st)"
  by (simp add: stateOk_def undoLast_def list_all_butlast list_all_last)

lemma stateOk_redoLast: "stateOk st \<Longrightarrow> stateOk (redoLast st)"
  by (simp add: stateOk_def redoLast_def list_all_butlast list_all_last)

lemma stateOk_step:
  assumes "stateOk st" and "freshFor e st"
  shows "stateOk (step e st)"
proof (cases e)
  case (CreateShape pointer i)
  with assms show ?thesis by (simp add: stateOk_createShape)
next
  case (HandleSelect i)
  with assms show ?thesis by (simp add: stateOk_handleSelect)
next
  case (UpdateShape i p)
  with assms show ?thesis by (simp add: stateOk_updateShape)
next
  case UndoLast
  with assms show ?thesis by (simp add: stateOk_undoLast)
next
  case RedoLast
  with assms show ?thesis by (simp add: stateOk_redoLast)
qed (use assms in \<open>simp_all add: stateOk_def setDrawingType_def\<close>)

lemma stateOk_initialState: "stateOk initialState"
  by (simp add: stateOk_def initialState_def collectionOk_def)

lemma reachable_stateOk: "reachable st \<Longrightarrow> stateOk st"
  by (induction rule: reachable.induct) (simp_all add: stateOk_initialState stateOk_step)

lemma carries_id_absent:
  "i \<notin> set (shapeIds c) \<Longrightarrow> filter (\<lambda>s. shape_id (base s) = i) c = []"
  by (induction c) auto

lemma carries_id_once:
  "distinct (shapeIds c) \<Longrightarrow> length (filter (\<lambda>s. shape_id (base s) = i) c) \<le> 1"
  by (induction c) (auto simp: carries_id_absent)

lemma markSelected_flag:
  "s \<in> set (map (markSelected i) c) \<Longrightarrow> isSelected (base s) = (shape_id (base s) = i)"
  by auto

lemma unselect_markSelected:
  "withBase (\<lambda>b. b\<lparr> isSelected := False \<rparr>) (markSelected i s) =
   withBase (\<lambda>b. b\<lparr> isSelected := False \<rparr>) s"
  by (cases s) (simp_all add: markSelected_def)

text \<open>
  C8. In every state that a run of the component reaches from the initial state, with
  fresh identifiers for the creations, at most one shape of the collection has the flag
  \<open>isSelected\<close>, and at most one carries the identifier of the cell \<open>selectedId\<close>. In
  such a state \<open>handleSelect\<close> of an identifier of the collection sets
  the flag of the shape with that identifier and clears the flag of every other shape,
  so that exactly one flag is set; it changes nothing else in the shapes, and it leaves
  the undo and redo stacks alone.
\<close>

theorem selection_exclusive:
  assumes "reachable st"
  shows "selectedCount (shapes st) \<le> 1 \<and>
         length (filter (\<lambda>s. selectedId st = Some (shape_id (base s))) (shapes st)) \<le> 1 \<and>
         (i \<in> set (shapeIds (shapes st)) \<longrightarrow>
            (\<forall>s \<in> set (shapes (handleSelect i st)).
               isSelected (base s) = (shape_id (base s) = i)) \<and>
            selectedCount (shapes (handleSelect i st)) = 1 \<and>
            map (withBase (\<lambda>b. b\<lparr> isSelected := False \<rparr>)) (shapes (handleSelect i st)) =
              map (withBase (\<lambda>b. b\<lparr> isSelected := False \<rparr>)) (shapes st) \<and>
            history (handleSelect i st) = history st \<and>
            redoStack (handleSelect i st) = redoStack st)"
proof -
  from assms have "collectionOk (shapes st)"
    by (auto dest: reachable_stateOk simp: stateOk_def)
  then have "selectedCount (shapes st) \<le> 1" and d: "distinct (shapeIds (shapes st))"
    by (simp_all add: collectionOk_def)
  moreover have "length (filter (\<lambda>s. selectedId st = Some (shape_id (base s))) (shapes st)) \<le> 1"
  proof (cases "selectedId st")
    case None
    then show ?thesis by simp
  next
    case (Some j)
    have "(\<lambda>s. selectedId st = Some (shape_id (base s))) = (\<lambda>s. shape_id (base s) = j)"
      using Some by auto
    with carries_id_once [OF d, of j] show ?thesis
      by simp
  qed
  ultimately show ?thesis
    by (auto simp: handleSelect_def selectedCount_markSelected markSelected_flag
          unselect_markSelected)
qed

theorem selection_exclusive_witness:
  "reachable selectedA \<and> selectedCount (shapes selectedA) \<le> 1 \<and>
   ''c'' \<in> set (shapeIds (shapes selectedA)) \<and>
   map (\<lambda>s. isSelected (base s)) (shapes selectedA) = [True, False] \<and>
   map (\<lambda>s. isSelected (base s)) (shapes (handleSelect ''c'' selectedA)) = [False, True] \<and>
   selectedCount (shapes (handleSelect ''c'' selectedA)) = 1 \<and>
   history (handleSelect ''c'' selectedA) = history selectedA"
proof -
  have "reachable oneRect"
    using reachable_step [OF reachable_init, of "CreateShape (Some (10, 10)) ''a''"]
    by (simp add: oneRect_def initialState_def)
  then have "reachable twoShapes"
    using reachable_step [of oneRect "CreateShape (Some (30, 30)) ''c''"]
    by (simp add: twoShapes_def oneRect_def initialState_def handler_defs)
  then have a: "reachable selectedA"
    using reachable_step [of twoShapes "HandleSelect ''a''"]
    by (simp add: selectedA_def)
  have b: "''c'' \<in> set (shapeIds (shapes selectedA))"
    by (simp add: example_defs handler_defs)
  have c: "map (\<lambda>s. isSelected (base s)) (shapes selectedA) = [True, False]"
    "map (\<lambda>s. isSelected (base s)) (shapes (handleSelect ''c'' selectedA)) = [False, True]"
    by (simp_all add: example_defs handler_defs)
  from selection_exclusive [OF a, of "''c''"] a b c show ?thesis
    by simp
qed

section \<open>The pending start point of a line\<close>

lemma createShape_line_second:
  "drawingType st = Line \<Longrightarrow> lineStart st = Some (sx, sy) \<Longrightarrow>
   shapes (createShape (Some (cx, cy)) i st) =
     shapes st @ [LineShape (baseProps i st) [sx, sy, cx, cy]] \<and>
   lineStart (createShape (Some (cx, cy)) i st) = None"
  by (simp add: createShape_def pushToHistory_def pushToHistoryOf_def Let_def)

text \<open>
  C10. \<open>undoLast\<close>, \<open>redoLast\<close> and \<open>setDrawingType\<close> leave the pending start point as it
  is. Of all events only a mouse-down with a pointer position under the line tool takes
  a pending start point away. So a start point that is pending before an undo, a redo
  or a change of the tool still completes a line at the next mouse-down under the line
  tool.
\<close>

theorem pending_point_kept:
  "lineStart (undoLast st) = lineStart st \<and>
   lineStart (redoLast st) = lineStart st \<and>
   lineStart (setDrawingType k st) = lineStart st \<and>
   (lineStart st = Some (sx, sy) \<longrightarrow>
      lineStart (step e st) =
        (if isPlacement e \<and> drawingType st = Line then None else Some (sx, sy))) \<and>
   (lineStart st = Some (sx, sy) \<and> e \<in> {UndoLast, RedoLast, SetDrawingType k} \<longrightarrow>
      shapes (createShape (Some (cx, cy)) i (setDrawingType Line (step e st))) =
        shapes (step e st) @ [LineShape (baseProps i st) [sx, sy, cx, cy]] \<and>
      lineStart (createShape (Some (cx, cy)) i (setDrawingType Line (step e st))) = None)"
proof -
  have a: "lineStart st = Some (sx, sy) \<longrightarrow>
      lineStart (step e st) =
        (if isPlacement e \<and> drawingType st = Line then None else Some (sx, sy))"
    by (cases e rule: isPlacement.cases)
       (auto simp: createShape_def pushToHistory_def pushToHistoryOf_def handleSelect_def updateShape_def updateShapeOf_def Let_def)
  have b: "shapes (createShape (Some (cx, cy)) i (setDrawingType Line (step e st))) =
        shapes (step e st) @ [LineShape (baseProps i st) [sx, sy, cx, cy]] \<and>
      lineStart (createShape (Some (cx, cy)) i (setDrawingType Line (step e st))) = None"
    if "lineStart st = Some (sx, sy)" and "e \<in> {UndoLast, RedoLast, SetDrawingType k}"
    using that createShape_line_second [of "setDrawingType Line (step e st)" sx sy cx cy i]
    by auto
  show ?thesis
    using a b by simp
qed

theorem pending_point_kept_witness:
  "lineStart pendingLine = Some (0, 0) \<and>
   lineStart (step UndoLast pendingLine) = Some (0, 0) \<and>
   shapes (step UndoLast pendingLine) = [] \<and>
   shapes (createShape (Some (50, 50)) ''c'' (setDrawingType Line (step UndoLast pendingLine))) =
     [LineShape (baseProps ''c'' initialState) [0, 0, 50, 50]] \<and>
   lineStart (step (SetDrawingType Circle) pendingLine) = Some (0, 0) \<and>
   shapes (createShape (Some (50, 50)) ''c''
       (setDrawingType Line (step (SetDrawingType Circle) pendingLine))) =
     shapes pendingLine @ [LineShape (baseProps ''c'' initialState) [0, 0, 50, 50]]"
proof -
  have a: "lineStart pendingLine = Some (0, 0)"
    by (simp add: example_defs handler_defs)
  have b: "shapes (step UndoLast pendingLine) = []"
    "baseProps ''c'' pendingLine = baseProps ''c'' initialState"
    "shapes (step (SetDrawingType Circle) pendingLine) = shapes pendingLine"
    by (simp_all add: example_defs handler_defs)
  from pending_point_kept [of pendingLine Circle 0 0 UndoLast 50 50 "''c''"]
       pending_point_kept [of pendingLine Circle 0 0 "SetDrawingType Circle" 50 50 "''c''"]
       a b
  show ?thesis
    by simp
qed


section \<open>Snapshots and sharing\<close>

lemma extends_refl [simp]: "extends h h"
  by (simp add: extends_def)

lemma extends_trans: "extends a b \<Longrightarrow> extends b c \<Longrightarrow> extends a c"
  by (auto simp: extends_def)

lemma extends_length:
  "extends h h' \<Longrightarrow> length (objects h) \<le> length (objects h')"
  "extends h h' \<Longrightarrow> length (arrays h) \<le> length (arrays h')"
  by (auto simp: extends_def prefix_def)

lemma extends_object: "extends h h' \<Longrightarrow> a < length (objects h) \<Longrightarrow> objects h' ! a = objects h ! a"
  by (auto simp: extends_def prefix_def nth_append)

lemma extends_array: "extends h h' \<Longrightarrow> r < length (arrays h) \<Longrightarrow> arrays h' ! r = arrays h ! r"
  by (auto simp: extends_def prefix_def nth_append)

lemma extends_add_object: "extends h (h\<lparr> objects := objects h @ [s] \<rparr>)"
  by (simp add: extends_def)

lemma extends_add_array: "extends h (h\<lparr> arrays := arrays h @ [as] \<rparr>)"
  by (simp add: extends_def)

lemma list_all_mono_less:
  "list_all (\<lambda>a. a < (m::nat)) as \<Longrightarrow> m \<le> n \<Longrightarrow> list_all (\<lambda>a. a < n) as"
  by (auto simp: list_all_iff)

lemma arrayMap_ok:
  assumes "list_all (\<lambda>a. a < length (objects h)) as"
  shows "\<exists>rs h'. arrayMap f as h = Some (rs, h') \<and> extends h h' \<and> arrays h' = arrays h \<and>
           list_all (\<lambda>a. a < length (objects h')) rs \<and>
           map (\<lambda>a. objects h' ! a) rs = map (\<lambda>a. returned f (objects h ! a)) as"
  using assms
proof (induction as arbitrary: h)
  case Nil
  then show ?case by simp
next
  case (Cons a as)
  from Cons.prems have a: "a < length (objects h)"
    and as: "list_all (\<lambda>a. a < length (objects h)) as"
    by simp_all
  show ?case
  proof (cases "f (objects h ! a)")
    case None
    from Cons.IH [OF as] obtain rs h' where
      r: "arrayMap f as h = Some (rs, h')" "extends h h'" "arrays h' = arrays h"
         "list_all (\<lambda>a. a < length (objects h')) rs"
         "map (\<lambda>a. objects h' ! a) rs = map (\<lambda>a. returned f (objects h ! a)) as"
      by blast
    from r(2) a have "a < length (objects h')" "objects h' ! a = objects h ! a"
      using extends_length(1) [of h h'] extends_object [of h h' a] by simp_all
    with None r a show ?thesis
      by (simp add: objectAt_def returned_def)
  next
    case (Some s')
    let ?h1 = "h\<lparr> objects := objects h @ [s'] \<rparr>"
    have as1: "list_all (\<lambda>a. a < length (objects ?h1)) as"
      using as by (auto simp: list_all_iff)
    from Cons.IH [OF as1] obtain rs h' where
      r: "arrayMap f as ?h1 = Some (rs, h')" "extends ?h1 h'" "arrays h' = arrays ?h1"
         "list_all (\<lambda>a. a < length (objects h')) rs"
         "map (\<lambda>a. objects h' ! a) rs = map (\<lambda>a. returned f (objects ?h1 ! a)) as"
      by blast
    have e: "extends h h'"
      using extends_trans [OF extends_add_object r(2)] .
    have n: "length (objects h) < length (objects h')"
      using extends_length(1) [OF r(2)] by simp
    have o: "objects h' ! length (objects h) = s'"
      using extends_object [OF r(2), of "length (objects h)"] by simp
    have m: "map (\<lambda>a. returned f (objects ?h1 ! a)) as = map (\<lambda>a. returned f (objects h ! a)) as"
      using as by (auto simp: list_all_iff nth_append)
    from Some r e n o m a show ?thesis
      by (simp add: objectAt_def newObject_def returned_def)
  qed
qed

lemma collectionAt_ok:
  "heapOk h \<Longrightarrow> r < length (arrays h) \<Longrightarrow>
   collectionAt h r = Some (map (\<lambda>a. objects h ! a) (arrays h ! r))"
  by (simp add: collectionAt_def arrayAt_def heapOk_def list_all_length)

lemma collectionAt_extends:
  assumes "heapOk h" and "r < length (arrays h)" and "extends h h'"
  shows "collectionAt h' r = collectionAt h r"
proof -
  from assms(1,2) have l: "list_all (\<lambda>a. a < length (objects h)) (arrays h ! r)"
    by (simp add: heapOk_def list_all_length)
  then have l': "list_all (\<lambda>a. a < length (objects h')) (arrays h ! r)"
    using extends_length(1) [OF assms(3)] by (rule list_all_mono_less)
  have "map (\<lambda>a. objects h' ! a) (arrays h ! r) = map (\<lambda>a. objects h ! a) (arrays h ! r)"
    using l extends_object [OF assms(3)] by (auto simp: list_all_iff)
  with l l' assms(2) extends_array [OF assms(3,2)] extends_length(2) [OF assms(3)]
  show ?thesis
    by (simp add: collectionAt_def arrayAt_def)
qed

lemma heapOk_add_array:
  assumes "heapOk h" and "extends h h1" and "arrays h1 = arrays h"
    and "list_all (\<lambda>a. a < length (objects h1)) rs"
  shows "heapOk (h1\<lparr> arrays := arrays h1 @ [rs] \<rparr>)"
proof -
  have "list_all (list_all (\<lambda>a. a < length (objects h1))) (arrays h)"
    unfolding list_all_iff
  proof (intro ballI)
    fix as a
    assume "as \<in> set (arrays h)" and "a \<in> set as"
    with assms(1) have "a < length (objects h)"
      by (auto simp: heapOk_def list_all_iff)
    with extends_length(1) [OF assms(2)] show "a < length (objects h1)"
      by simp
  qed
  with assms(3,4) show ?thesis
    by (simp add: heapOk_def)
qed

lemma setShapesMap_ok:
  assumes "wellFormed hs"
  shows "\<exists>hs'. setShapesMap f hs = Some hs' \<and> wellFormed hs' \<and> extends (heap hs) (heap hs') \<and>
           cells hs' = (cells hs)\<lparr> shapes := length (arrays (heap hs)) \<rparr> \<and>
           collectionAt (heap hs') (shapes (cells hs')) =
             map_option (map (returned f)) (collectionAt (heap hs) (shapes (cells hs)))"
proof -
  let ?h = "heap hs" and ?r = "shapes (cells hs)"
  from assms have ok: "heapOk ?h" and r: "?r < length (arrays ?h)"
    and hi: "list_all (\<lambda>r. r < length (arrays ?h)) (history (cells hs))"
    and re: "list_all (\<lambda>r. r < length (arrays ?h)) (redoStack (cells hs))"
    by (simp_all add: wellFormed_def)
  from ok r have l: "list_all (\<lambda>a. a < length (objects ?h)) (arrays ?h ! ?r)"
    by (simp add: heapOk_def list_all_length)
  from arrayMap_ok [OF l, of f] obtain rs h1 where
    m: "arrayMap f (arrays ?h ! ?r) ?h = Some (rs, h1)" "extends ?h h1" "arrays h1 = arrays ?h"
       "list_all (\<lambda>a. a < length (objects h1)) rs"
       "map (\<lambda>a. objects h1 ! a) rs = map (\<lambda>a. returned f (objects ?h ! a)) (arrays ?h ! ?r)"
    by blast
  let ?h2 = "h1\<lparr> arrays := arrays h1 @ [rs] \<rparr>"
  let ?hs' = "\<lparr> heap = ?h2, cells = (cells hs)\<lparr> shapes := length (arrays ?h) \<rparr> \<rparr>"
  have s: "setShapesMap f hs = Some ?hs'"
    using r m(1,3) by (simp add: setShapesMap_def arrayAt_def newArray_def)
  have ok2: "heapOk ?h2"
    using heapOk_add_array [OF ok m(2,3,4)] .
  have w: "wellFormed ?hs'"
    using ok2 hi re m(3) by (auto simp: wellFormed_def list_all_iff)
  have e: "extends ?h ?h2"
    using extends_trans [OF m(2) extends_add_array] .
  have c: "collectionAt ?h2 (length (arrays ?h)) =
             map_option (map (returned f)) (collectionAt ?h ?r)"
    using m(3,4,5) collectionAt_ok [OF ok r]
    by (simp add: collectionAt_def arrayAt_def o_def)
  from s w e c show ?thesis
    by simp
qed

lemma setShapesAppend_ok:
  assumes "wellFormed hs"
  shows "\<exists>hs'. setShapesAppend s hs = Some hs' \<and> wellFormed hs' \<and> extends (heap hs) (heap hs') \<and>
           cells hs' = (cells hs)\<lparr> shapes := length (arrays (heap hs)) \<rparr> \<and>
           collectionAt (heap hs') (shapes (cells hs')) =
             map_option (\<lambda>c. c @ [s]) (collectionAt (heap hs) (shapes (cells hs)))"
proof -
  let ?h = "heap hs" and ?r = "shapes (cells hs)"
  from assms have ok: "heapOk ?h" and r: "?r < length (arrays ?h)"
    and hi: "list_all (\<lambda>r. r < length (arrays ?h)) (history (cells hs))"
    and re: "list_all (\<lambda>r. r < length (arrays ?h)) (redoStack (cells hs))"
    by (simp_all add: wellFormed_def)
  from ok r have l: "list_all (\<lambda>a. a < length (objects ?h)) (arrays ?h ! ?r)"
    by (simp add: heapOk_def list_all_length)
  let ?h1 = "?h\<lparr> objects := objects ?h @ [s] \<rparr>"
  let ?rs = "arrays ?h ! ?r @ [length (objects ?h)]"
  let ?h2 = "?h1\<lparr> arrays := arrays ?h1 @ [?rs] \<rparr>"
  let ?hs' = "\<lparr> heap = ?h2, cells = (cells hs)\<lparr> shapes := length (arrays ?h) \<rparr> \<rparr>"
  have s: "setShapesAppend s hs = Some ?hs'"
    using r by (simp add: setShapesAppend_def arrayAt_def newArray_def newObject_def)
  have l1: "list_all (\<lambda>a. a < length (objects ?h1)) ?rs"
    using l by (auto simp: list_all_iff)
  have ok2: "heapOk ?h2"
    using heapOk_add_array [OF ok extends_add_object _ l1] by simp
  have w: "wellFormed ?hs'"
    using ok2 hi re by (auto simp: wellFormed_def list_all_iff)
  have e: "extends ?h ?h2"
    using extends_trans [OF extends_add_object extends_add_array] .
  have "map (\<lambda>a. (objects ?h @ [s]) ! a) (arrays ?h ! ?r) = map (\<lambda>a. objects ?h ! a) (arrays ?h ! ?r)"
    using l by (auto simp: list_all_iff nth_append)
  then have c: "collectionAt ?h2 (length (arrays ?h)) =
             map_option (\<lambda>c. c @ [s]) (collectionAt ?h ?r)"
    using l1 collectionAt_ok [OF ok r]
    by (simp add: collectionAt_def arrayAt_def)
  from s w e c show ?thesis
    by simp
qed


lemma onCells_simps [simp]: "heap (onCells f hs) = heap hs" "cells (onCells f hs) = f (cells hs)"
  by (simp_all add: onCells_def)

lemma wellFormed_pushToHistory: "wellFormed hs \<Longrightarrow> wellFormed (onCells pushToHistory hs)"
  by (auto simp: wellFormed_def pushToHistory_def pushToHistoryOf_def list_all_iff)

lemma wellFormed_undoLast: "wellFormed hs \<Longrightarrow> wellFormed (onCells undoLast hs)"
  by (auto simp: wellFormed_def undoLast_def list_all_iff dest: in_set_butlastD)

lemma wellFormed_redoLast: "wellFormed hs \<Longrightarrow> wellFormed (onCells redoLast hs)"
  by (auto simp: wellFormed_def redoLast_def list_all_iff dest: in_set_butlastD)

lemma wellFormed_tools:
  "wellFormed hs \<Longrightarrow> shapes (f (cells hs)) = shapes (cells hs) \<Longrightarrow>
   history (f (cells hs)) = history (cells hs) \<Longrightarrow>
   redoStack (f (cells hs)) = redoStack (cells hs) \<Longrightarrow> wellFormed (onCells f hs)"
  by (simp add: wellFormed_def)

lemma h_updateShape_ok:
  assumes "wellFormed hs"
  shows "\<exists>hs'. h_updateShape i p hs = Some hs' \<and> wellFormed hs' \<and> extends (heap hs) (heap hs') \<and>
           cells hs' = (pushToHistory (cells hs))\<lparr> shapes := length (arrays (heap hs)) \<rparr> \<and>
           collectionAt (heap hs') (shapes (cells hs')) =
             map_option
               (map (\<lambda>shape. if shape_id (base shape) = i then spread shape p else shape))
               (collectionAt (heap hs) (shapes (cells hs)))"
proof -
  let ?f = "\<lambda>shape. if shape_id (base shape) = i then Some (spread shape p) else None"
  have r: "returned ?f = (\<lambda>shape. if shape_id (base shape) = i then spread shape p else shape)"
    by (auto simp: returned_def)
  from setShapesMap_ok [OF wellFormed_pushToHistory [OF assms], of ?f] show ?thesis
    unfolding h_updateShape_def r by (simp add: pushToHistory_def pushToHistoryOf_def)
qed

lemma h_handleSelect_ok:
  assumes "wellFormed hs"
  shows "\<exists>hs'. h_handleSelect i hs = Some hs' \<and> wellFormed hs' \<and> extends (heap hs) (heap hs') \<and>
           cells hs' = (cells hs)\<lparr> selectedId := Some i, shapes := length (arrays (heap hs)) \<rparr> \<and>
           collectionAt (heap hs') (shapes (cells hs')) =
             map_option (map (markSelected i)) (collectionAt (heap hs) (shapes (cells hs)))"
proof -
  let ?f = "\<lambda>shape. Some (markSelected i shape)"
  have r: "returned ?f = markSelected i"
    by (auto simp: returned_def)
  have w: "wellFormed (onCells (\<lambda>st. st\<lparr> selectedId := Some i \<rparr>) hs)"
    using assms by (simp add: wellFormed_tools)
  from setShapesMap_ok [OF w, of ?f] show ?thesis
    unfolding h_handleSelect_def r by simp
qed

lemma appendShape_pushed:
  assumes "wellFormed hs"
  shows "\<exists>hs'. setShapesAppend s (onCells pushToHistory hs) = Some hs' \<and> wellFormed hs' \<and>
           extends (heap hs) (heap hs') \<and>
           cells hs' = (pushToHistory (cells hs))\<lparr> shapes := length (arrays (heap hs)) \<rparr> \<and>
           collectionAt (heap hs') (shapes (cells hs')) =
             map_option (\<lambda>c. c @ [s]) (collectionAt (heap hs) (shapes (cells hs)))"
  using setShapesAppend_ok [OF wellFormed_pushToHistory [OF assms], of s]
  by (simp add: pushToHistory_def pushToHistoryOf_def)


lemma collectionsAt_extends:
  assumes "heapOk h" and "extends h h'"
  shows "list_all (\<lambda>r. r < length (arrays h)) rs \<Longrightarrow> collectionsAt h' rs = collectionsAt h rs"
  by (induction rs) (auto simp: collectionAt_extends [OF assms(1) _ assms(2)] split: option.splits)

lemma collectionsAt_append:
  "collectionsAt h (rs @ [r]) =
     (case collectionsAt h rs of
        None \<Rightarrow> None
      | Some cs \<Rightarrow> map_option (\<lambda>c. cs @ [c]) (collectionAt h r))"
  by (induction rs) (auto simp: option.map_comp comp_def split: option.splits)

lemma collectionsAt_Nil_iff: "collectionsAt h rs = Some cs \<Longrightarrow> (cs = []) = (rs = [])"
  by (cases rs) (auto split: option.splits)

lemma collectionsAt_last:
  "collectionsAt h rs = Some cs \<Longrightarrow> rs \<noteq> [] \<Longrightarrow>
   collectionsAt h (butlast rs) = Some (butlast cs) \<and> collectionAt h (last rs) = Some (last cs)"
proof (induction rs arbitrary: cs)
  case Nil
  then show ?case by simp
next
  case (Cons r rs)
  from Cons.prems(1) obtain c cs' where
    c: "collectionAt h r = Some c" "collectionsAt h rs = Some cs'" "cs = c # cs'"
    by (auto split: option.splits)
  show ?case
  proof (cases "rs = []")
    case True
    with c show ?thesis by simp
  next
    case False
    with collectionsAt_Nil_iff [OF c(2)] have "cs' \<noteq> []" by simp
    with Cons.IH [OF c(2) False] c False show ?thesis by simp
  qed
qed

lemma valueOf_Some_iff:
  "valueOf hs = Some st \<longleftrightarrow>
     collectionAt (heap hs) (shapes (cells hs)) = Some (shapes st) \<and>
     collectionsAt (heap hs) (history (cells hs)) = Some (history st) \<and>
     collectionsAt (heap hs) (redoStack (cells hs)) = Some (redoStack st) \<and>
     selectedId st = selectedId (cells hs) \<and> drawingType st = drawingType (cells hs) \<and>
     lineStart st = lineStart (cells hs) \<and> strokeColor st = strokeColor (cells hs) \<and>
     toolStrokeWidth st = toolStrokeWidth (cells hs) \<and> dashStyle st = dashStyle (cells hs) \<and>
     fillColor st = fillColor (cells hs)"
  by (cases st) (auto simp: valueOf_def split: option.splits)

lemma cells_extends:
  assumes "wellFormed hs" and "extends (heap hs) h'"
  shows "collectionAt h' (shapes (cells hs)) = collectionAt (heap hs) (shapes (cells hs))"
    and "collectionsAt h' (history (cells hs)) = collectionsAt (heap hs) (history (cells hs))"
    and "collectionsAt h' (redoStack (cells hs)) = collectionsAt (heap hs) (redoStack (cells hs))"
  using assms
  by (simp_all add: wellFormed_def collectionAt_extends collectionsAt_extends)

lemma baseProps_valueOf: "valueOf hs = Some st \<Longrightarrow> baseProps i (cells hs) = baseProps i st"
  by (simp add: valueOf_Some_iff baseProps_def)

lemma h_updateShape_simulates:
  assumes "wellFormed hs" and "valueOf hs = Some st"
  shows "\<exists>hs'. h_updateShape i p hs = Some hs' \<and> wellFormed hs' \<and> extends (heap hs) (heap hs') \<and>
           cells hs' = (pushToHistory (cells hs))\<lparr> shapes := length (arrays (heap hs)) \<rparr> \<and>
           valueOf hs' = Some (updateShape i p st)"
proof -
  from h_updateShape_ok [OF assms(1), of i p] obtain hs' where
    h: "h_updateShape i p hs = Some hs'" "wellFormed hs'" "extends (heap hs) (heap hs')"
       "cells hs' = (pushToHistory (cells hs))\<lparr> shapes := length (arrays (heap hs)) \<rparr>"
       "collectionAt (heap hs') (shapes (cells hs')) =
          map_option
            (map (\<lambda>shape. if shape_id (base shape) = i then spread shape p else shape))
            (collectionAt (heap hs) (shapes (cells hs)))"
    by blast
  from assms(2) h(5) cells_extends [OF assms(1) h(3)]
  have "valueOf hs' = Some (updateShape i p st)"
    unfolding valueOf_Some_iff
    by (simp add: h(4) pushToHistory_def pushToHistoryOf_def updateShape_def updateShapeOf_def Let_def collectionsAt_append)
  with h show ?thesis by blast
qed

lemma h_handleSelect_simulates:
  assumes "wellFormed hs" and "valueOf hs = Some st"
  shows "\<exists>hs'. h_handleSelect i hs = Some hs' \<and> wellFormed hs' \<and> extends (heap hs) (heap hs') \<and>
           cells hs' = (cells hs)\<lparr> selectedId := Some i, shapes := length (arrays (heap hs)) \<rparr> \<and>
           valueOf hs' = Some (handleSelect i st)"
proof -
  from h_handleSelect_ok [OF assms(1), of i] obtain hs' where
    h: "h_handleSelect i hs = Some hs'" "wellFormed hs'" "extends (heap hs) (heap hs')"
       "cells hs' = (cells hs)\<lparr> selectedId := Some i, shapes := length (arrays (heap hs)) \<rparr>"
       "collectionAt (heap hs') (shapes (cells hs')) =
          map_option (map (markSelected i)) (collectionAt (heap hs) (shapes (cells hs)))"
    by blast
  from assms(2) h(5) cells_extends [OF assms(1) h(3)]
  have "valueOf hs' = Some (handleSelect i st)"
    unfolding valueOf_Some_iff
    by (simp add: h(4) handleSelect_def)
  with h show ?thesis by blast
qed

lemma appendShape_simulates:
  assumes "wellFormed hs" and "valueOf hs = Some st"
  shows "\<exists>hs'. setShapesAppend s (onCells pushToHistory hs) = Some hs' \<and> wellFormed hs' \<and>
           extends (heap hs) (heap hs') \<and>
           cells hs' = (pushToHistory (cells hs))\<lparr> shapes := length (arrays (heap hs)) \<rparr> \<and>
           valueOf hs' = Some ((pushToHistory st)\<lparr> shapes := shapes st @ [s] \<rparr>)"
proof -
  from appendShape_pushed [OF assms(1), of s] obtain hs' where
    h: "setShapesAppend s (onCells pushToHistory hs) = Some hs'" "wellFormed hs'"
       "extends (heap hs) (heap hs')"
       "cells hs' = (pushToHistory (cells hs))\<lparr> shapes := length (arrays (heap hs)) \<rparr>"
       "collectionAt (heap hs') (shapes (cells hs')) =
          map_option (\<lambda>c. c @ [s]) (collectionAt (heap hs) (shapes (cells hs)))"
    by blast
  from assms(2) h(5) cells_extends [OF assms(1) h(3)]
  have "valueOf hs' = Some ((pushToHistory st)\<lparr> shapes := shapes st @ [s] \<rparr>)"
    unfolding valueOf_Some_iff
    by (simp add: h(4) pushToHistory_def pushToHistoryOf_def collectionsAt_append)
  with h show ?thesis by blast
qed

lemma valueOf_tools:
  assumes "valueOf hs = Some st" and "wellFormed hs"
  shows "wellFormed (onCells (\<lambda>c. c\<lparr> lineStart := v \<rparr>) hs)"
    and "valueOf (onCells (\<lambda>c. c\<lparr> lineStart := v \<rparr>) hs) = Some (st\<lparr> lineStart := v \<rparr>)"
    and "wellFormed (onCells (\<lambda>c. c\<lparr> selectedId := w \<rparr>) hs)"
    and "valueOf (onCells (\<lambda>c. c\<lparr> selectedId := w \<rparr>) hs) = Some (st\<lparr> selectedId := w \<rparr>)"
  using assms by (simp_all add: valueOf_Some_iff wellFormed_def)

lemma h_createShape_simulates:
  assumes "wellFormed hs" and "valueOf hs = Some st"
  shows "\<exists>hs'. h_createShape pointer i hs = Some hs' \<and> wellFormed hs' \<and>
           extends (heap hs) (heap hs') \<and>
           set (history (cells hs')) \<subseteq> insert (shapes (cells hs)) (set (history (cells hs))) \<and>
           redoStack (cells hs') = (if createsShape pointer st then [] else redoStack (cells hs)) \<and>
           (createsShape pointer st \<longrightarrow>
              history (cells hs') = history (cells hs) @ [shapes (cells hs)]) \<and>
           valueOf hs' = Some (createShape pointer i st)"
proof (cases pointer)
  case None
  with assms show ?thesis
    by (auto simp: h_createShape_def createShape_def createsShape_def)
next
  case (Some p)
  obtain px py where p: "p = (px, py)" by (cases p)
  from assms(2) have t: "drawingType (cells hs) = drawingType st"
    "lineStart (cells hs) = lineStart st" "fillColor (cells hs) = fillColor st"
    by (simp_all add: valueOf_Some_iff)
  note b = baseProps_valueOf [OF assms(2)]
  show ?thesis
  proof (cases "createsShape pointer st")
    case False
    with Some have l: "drawingType st = Line" "lineStart st = None"
      by (cases "lineStart st"; simp add: createsShape_def)+
    with Some p t valueOf_tools(1,2) [OF assms(2,1), of "Some (px, py)"] False show ?thesis
      by (auto simp: h_createShape_def createShape_def)
  next
    case True
    show ?thesis
    proof (cases "drawingType st = Line")
      case line: True
      with True Some obtain lx ly where l: "lineStart st = Some (lx, ly)"
        by (auto simp: createsShape_def)
      from appendShape_simulates [OF assms, of "LineShape (baseProps i st) [lx, ly, px, py]"]
      obtain hs1 where
        h: "setShapesAppend (LineShape (baseProps i st) [lx, ly, px, py]) (onCells pushToHistory hs)
              = Some hs1" "wellFormed hs1" "extends (heap hs) (heap hs1)"
           "cells hs1 = (pushToHistory (cells hs))\<lparr> shapes := length (arrays (heap hs)) \<rparr>"
           "valueOf hs1 = Some ((pushToHistory st)\<lparr> shapes := shapes st @
               [LineShape (baseProps i st) [lx, ly, px, py]] \<rparr>)"
        by blast
      from valueOf_tools(1,2) [OF h(5,2), of None] h Some p t b line l True show ?thesis
        by (auto simp: h_createShape_def createShape_def Let_def pushToHistory_def pushToHistoryOf_def)
    next
      case False
      let ?s = "if drawingType st = Rectangle
                then RectShape (baseProps i st) px py 100 60 (fillColor st)
                else CircleShape (baseProps i st) px py 40 (fillColor st)"
      from appendShape_simulates [OF assms, of ?s]
      obtain hs1 where
        h: "setShapesAppend ?s (onCells pushToHistory hs) = Some hs1" "wellFormed hs1"
           "extends (heap hs) (heap hs1)"
           "cells hs1 = (pushToHistory (cells hs))\<lparr> shapes := length (arrays (heap hs)) \<rparr>"
           "valueOf hs1 = Some ((pushToHistory st)\<lparr> shapes := shapes st @ [?s] \<rparr>)"
        by blast
      from valueOf_tools(3,4) [OF h(5,2), of "Some i"] h Some p t b False True show ?thesis
        by (auto simp: h_createShape_def createShape_def Let_def pushToHistory_def pushToHistoryOf_def)
    qed
  qed
qed


lemma undoLast_simulates:
  assumes "valueOf hs = Some st"
  shows "valueOf (onCells undoLast hs) = Some (undoLast st)"
proof (cases "history (cells hs) = []")
  case True
  with assms have "history st = []"
    by (auto simp: valueOf_Some_iff)
  with True assms show ?thesis
    by (simp add: undoLast_def onCells_def)
next
  case False
  from assms have c: "collectionsAt (heap hs) (history (cells hs)) = Some (history st)"
    by (simp add: valueOf_Some_iff)
  from collectionsAt_Nil_iff [OF c] False have n: "history st \<noteq> []"
    by simp
  from assms collectionsAt_last [OF c False] False n show ?thesis
    unfolding valueOf_Some_iff
    by (simp add: undoLast_def collectionsAt_append)
qed

lemma redoLast_simulates:
  assumes "valueOf hs = Some st"
  shows "valueOf (onCells redoLast hs) = Some (redoLast st)"
proof (cases "redoStack (cells hs) = []")
  case True
  with assms have "redoStack st = []"
    by (auto simp: valueOf_Some_iff)
  with True assms show ?thesis
    by (simp add: redoLast_def onCells_def)
next
  case False
  from assms have c: "collectionsAt (heap hs) (redoStack (cells hs)) = Some (redoStack st)"
    by (simp add: valueOf_Some_iff)
  from collectionsAt_Nil_iff [OF c] False have n: "redoStack st \<noteq> []"
    by simp
  from assms collectionsAt_last [OF c False] False n show ?thesis
    unfolding valueOf_Some_iff
    by (simp add: redoLast_def collectionsAt_append)
qed

lemma h_step_simulates:
  assumes "wellFormed hs" and "valueOf hs = Some st"
  shows "\<exists>hs'. h_step e hs = Some hs' \<and> wellFormed hs' \<and> extends (heap hs) (heap hs') \<and>
           valueOf hs' = Some (step e st) \<and>
           (mutates e st \<longrightarrow> history (cells hs') = history (cells hs) @ [shapes (cells hs)])"
proof (cases e)
  case (CreateShape pointer i)
  with h_createShape_simulates [OF assms, of pointer i] show ?thesis
    by auto
next
  case (HandleSelect i)
  with h_handleSelect_simulates [OF assms, of i] show ?thesis
    by auto
next
  case (UpdateShape i p)
  with h_updateShape_simulates [OF assms, of i p] show ?thesis
    by (auto simp: pushToHistory_def pushToHistoryOf_def)
next
  case UndoLast
  with assms undoLast_simulates [OF assms(2)] wellFormed_undoLast [OF assms(1)] show ?thesis
    by simp
next
  case RedoLast
  with assms redoLast_simulates [OF assms(2)] wellFormed_redoLast [OF assms(1)] show ?thesis
    by simp
qed (use assms in \<open>simp_all add: valueOf_Some_iff wellFormed_def setDrawingType_def\<close>)

lemma h_run_simulates:
  assumes "wellFormed hs" and "valueOf hs = Some st"
  shows "\<exists>hs'. h_run es hs = Some hs' \<and> wellFormed hs' \<and> extends (heap hs) (heap hs') \<and>
           valueOf hs' = Some (run es st)"
  using assms
proof (induction es arbitrary: hs st)
  case Nil
  then show ?case by simp
next
  case (Cons e es)
  from h_step_simulates [OF Cons.prems, of e] obtain hs1 where
    s: "h_step e hs = Some hs1" "wellFormed hs1" "extends (heap hs) (heap hs1)"
       "valueOf hs1 = Some (step e st)"
    by blast
  from Cons.IH [OF s(2,4)] obtain hs2 where
    r: "h_run es hs1 = Some hs2" "wellFormed hs2" "extends (heap hs1) (heap hs2)"
       "valueOf hs2 = Some (run es (step e st))"
    by blast
  from s r extends_trans [OF s(3) r(3)] show ?case
    by simp
qed

lemma wellFormed_initial: "wellFormed h_initialState"
  by (simp add: wellFormed_def h_initialState_def heapOk_def)

lemma valueOf_initial: "valueOf h_initialState = Some initialState"
  by (simp add: valueOf_def h_initialState_def initialState_def collectionAt_def arrayAt_def)

text \<open>No handler ever reads a dangling reference, and the heap model computes what the
  model of values computes: every run from the first render succeeds, and the state it
  ends in denotes the state that the same run gives on values.\<close>

lemma h_run_initial:
  "\<exists>hs. h_run es h_initialState = Some hs \<and> wellFormed hs \<and> valueOf hs = Some (run es initialState)"
  using h_run_simulates [OF wellFormed_initial valueOf_initial, of es] by blast

text \<open>
  C9. Take a state of the heap model without dangling references, and an event that
  changes the collection. The handler runs, and what it pushes onto the undo stack is
  the reference of the live array itself. After any further events whatsoever, among
  them creations, selections and geometry updates, the store has only grown and that
  reference still denotes the collection as it was when it was pushed. If it is on top of the undo stack then,
  the undo makes exactly that collection the live one.
\<close>

theorem snapshot_never_altered:
  assumes "wellFormed hs" and "valueOf hs = Some st" and "mutates e st"
  shows "\<exists>hs1 hs2. h_step e hs = Some hs1 \<and> h_run es hs1 = Some hs2 \<and>
           history (cells hs1) = history (cells hs) @ [shapes (cells hs)] \<and>
           extends (heap hs) (heap hs2) \<and>
           collectionAt (heap hs2) (shapes (cells hs)) = Some (shapes st) \<and>
           (history (cells hs2) \<noteq> [] \<and> last (history (cells hs2)) = shapes (cells hs) \<longrightarrow>
              map_option shapes (valueOf (onCells undoLast hs2)) = Some (shapes st))"
proof -
  from h_step_simulates [OF assms(1,2), of e] assms(3) obtain hs1 where
    s: "h_step e hs = Some hs1" "wellFormed hs1" "extends (heap hs) (heap hs1)"
       "valueOf hs1 = Some (step e st)"
       "history (cells hs1) = history (cells hs) @ [shapes (cells hs)]"
    by blast
  from h_run_simulates [OF s(2,4), of es] obtain hs2 where
    r: "h_run es hs1 = Some hs2" "wellFormed hs2" "extends (heap hs1) (heap hs2)"
       "valueOf hs2 = Some (run es (step e st))"
    by blast
  let ?st2 = "run es (step e st)"
  have "collectionAt (heap hs2) (shapes (cells hs)) = collectionAt (heap hs) (shapes (cells hs))"
    using cells_extends(1) [OF assms(1) extends_trans [OF s(3) r(3)]] .
  with assms(2) have c: "collectionAt (heap hs2) (shapes (cells hs)) = Some (shapes st)"
    by (simp add: valueOf_Some_iff)
  have u: "map_option shapes (valueOf (onCells undoLast hs2)) = Some (shapes st)"
    if n: "history (cells hs2) \<noteq> []" and l: "last (history (cells hs2)) = shapes (cells hs)"
  proof -
    from r(4) have h: "collectionsAt (heap hs2) (history (cells hs2)) = Some (history ?st2)"
      by (simp add: valueOf_Some_iff)
    from collectionsAt_Nil_iff [OF h] n have n2: "history ?st2 \<noteq> []"
      by simp
    from collectionsAt_last [OF h n] l c have "last (history ?st2) = shapes st"
      by simp
    with n2 undoLast_simulates [OF r(4)] show ?thesis
      by (simp add: undoLast_def)
  qed
  from s r c u extends_trans [OF s(3) r(3)] show ?thesis
    by blast
qed


lemmas heap_defs =
  h_createShape_def h_handleSelect_def h_updateShape_def setShapesMap_def setShapesAppend_def
  onCells_def arrayAt_def objectAt_def newObject_def newArray_def collectionAt_def valueOf_def
  h_initialState_def h_oneRect_def wellFormed_def heapOk_def

theorem snapshot_never_altered_witness:
  "wellFormed h_oneRect \<and> valueOf h_oneRect = Some oneRect \<and>
   mutates (UpdateShape ''a'' movePatch) oneRect \<and>
   (\<exists>hs1 hs2. h_step (UpdateShape ''a'' movePatch) h_oneRect = Some hs1 \<and>
      h_run [HandleSelect ''a''] hs1 = Some hs2 \<and>
      history (cells hs2) \<noteq> [] \<and> last (history (cells hs2)) = shapes (cells h_oneRect) \<and>
      collectionAt (heap hs2) (shapes (cells h_oneRect)) = Some (shapes oneRect) \<and>
      map_option shapes (valueOf hs2) \<noteq> Some (shapes oneRect) \<and>
      map_option shapes (valueOf (onCells undoLast hs2)) = Some (shapes oneRect))"
proof -
  have a: "wellFormed h_oneRect"
    by (simp add: heap_defs handler_defs)
  have b: "valueOf h_oneRect = Some oneRect"
    by (simp add: heap_defs handler_defs example_defs)
  have c: "mutates (UpdateShape ''a'' movePatch) oneRect"
    by simp
  from snapshot_never_altered [OF a b c, of "[HandleSelect ''a'']"] obtain hs1 hs2 where
    h: "h_step (UpdateShape ''a'' movePatch) h_oneRect = Some hs1"
       "h_run [HandleSelect ''a''] hs1 = Some hs2"
       "collectionAt (heap hs2) (shapes (cells h_oneRect)) = Some (shapes oneRect)"
       "history (cells hs2) \<noteq> [] \<and> last (history (cells hs2)) = shapes (cells h_oneRect) \<longrightarrow>
          map_option shapes (valueOf (onCells undoLast hs2)) = Some (shapes oneRect)"
    by blast
  have d: "h_run [UpdateShape ''a'' movePatch, HandleSelect ''a''] h_oneRect = Some hs2"
    using h(1,2) by simp
  have "map_option (\<lambda>hs. (history (cells hs), map_option shapes (valueOf hs)))
          (h_run [UpdateShape ''a'' movePatch, HandleSelect ''a''] h_oneRect) =
        Some ([0, 1], Some [RectShape ((baseProps ''a'' initialState)\<lparr> isSelected := True \<rparr>)
                 99 1 100 60 ''#f0f0f0''])"
    by (simp add: heap_defs handler_defs example_defs returned_def movePatch_def noPatch_def
          orElse_def markSelected_def)
  with d have e: "history (cells hs2) = [0, 1]"
    "map_option shapes (valueOf hs2) \<noteq> Some (shapes oneRect)"
    by (auto simp: example_defs handler_defs)
  have f: "shapes (cells h_oneRect) = 1"
    by (simp add: heap_defs handler_defs)
  from a b c h e f show ?thesis
    by auto
qed

end
